theory Spec2Isabelle
  imports Main
begin

section \<open>Dependency graph: data model\<close>

text \<open>
  The flow view works on the node and edge objects of the graph widget. Only the fields
  the traversals read are of interest, but the records keep everything the temporary
  nodes and edges are built with. The node field \<open>id\<close> is named \<open>node_id\<close> and the edge
  field \<open>id\<close> is named \<open>edge_id\<close>, since \<open>id\<close> is the identity function of HOL; the
  field \<open>type\<close> of the node data is named \<open>type_d\<close>.
\<close>

record NodeData =
  service_id_d :: string
  label_d :: string
  type_d :: "string option"

record Node =
  node_id :: string
  position :: "int \<times> int"
  data :: NodeData

record Edge =
  edge_id :: string
  source :: string
  target :: string

record ServiceNode =
  service_id :: string
  label :: string
  service_type :: "string option"

record ServiceRelation =
  relation_id :: string
  rel_source :: string
  rel_target :: string

section \<open>Downstream and upstream traversal\<close>

text \<open>
  The two queries of the flow view, defined next to \<open>getElementLayout\<close>.
  \<open>get_downstream_dependents\<close> keeps two mutable sets, \<open>visited\<close> and \<open>dependents\<close>, and a
  local recursive closure \<open>findDownstream\<close> that reads and writes both. The model passes
  the pair \<open>(visited, dependents)\<close> through the calls. The \<open>forEach\<close> over the filtered
  edges calls \<open>findDownstream\<close> again for each edge, on the sets as the earlier iterations
  left them, so it is a function of its own, mutually recursive with \<open>findDownstream\<close>.
\<close>

type_synonym traversal = "string set \<times> string set"

function findDownstream :: "Edge list \<Rightarrow> string \<Rightarrow> traversal \<Rightarrow> traversal"
  and forEachDownstream :: "Edge list \<Rightarrow> Edge list \<Rightarrow> traversal \<Rightarrow> traversal" where
  "findDownstream edges serviceId (visited, dependents) =
     (if serviceId \<in> visited then (visited, dependents)
      else forEachDownstream edges (filter (\<lambda>edge. source edge = serviceId) edges)
             (insert serviceId visited, dependents))"
| "forEachDownstream edges [] st = st"
| "forEachDownstream edges (edge # rest) (visited, dependents) =
     forEachDownstream edges rest
       (findDownstream edges (target edge) (visited, insert (target edge) dependents))"
  by pat_completeness auto

text \<open>
  The recursion is nested: the sets handed to the rest of the loop are the result of the
  recursive call. Termination therefore needs that a call never shrinks \<open>visited\<close>, which
  is proved first for the arguments on which the function is defined.
\<close>

lemma downstream_visited_grows:
  "findDownstream_forEachDownstream_dom (Inl (es, s, st)) \<Longrightarrow>
     fst st \<subseteq> fst (findDownstream es s st)"
  "findDownstream_forEachDownstream_dom (Inr (es, l, st)) \<Longrightarrow>
     fst st \<subseteq> fst (forEachDownstream es l st)"
proof (induction es s st and es l st rule: findDownstream_forEachDownstream.pinduct)
  case (1 edges serviceId visited dependents)
  then show ?case by (auto simp: findDownstream.psimps)
next
  case (2 edges st)
  then show ?case by (simp add: forEachDownstream.psimps)
next
  case (3 edges edge rest visited dependents)
  then show ?case by (auto simp: forEachDownstream.psimps)
qed

definition targets :: "Edge list \<Rightarrow> string set" where
  "targets es = target ` set es"

definition sources :: "Edge list \<Rightarrow> string set" where
  "sources es = source ` set es"

lemma card_diff_le:
  assumes "finite B" and "A - V' \<subseteq> B - V"
  shows "card (A - V') \<le> card (B - V)"
  using assms by (intro card_mono) auto

termination findDownstream
proof (relation "inv_image (less_than <*lex*> less_than)
   (\<lambda>x. case x of
      Inl (es, s, (V, D)) \<Rightarrow> (card (insert s (targets es) - V), 0::nat)
    | Inr (es, l, (V, D)) \<Rightarrow> (card ((targets es \<union> targets l) - V), Suc (length l)))",
   goal_cases)
  case 1
  show ?case by (intro wf_inv_image wf_lex_prod wf_less_than)
next
  case (2 edges serviceId visited dependents)
  have "targets (filter (\<lambda>edge. source edge = serviceId) edges) \<subseteq> targets edges"
    by (auto simp: targets_def)
  then have "(targets edges \<union> targets (filter (\<lambda>edge. source edge = serviceId) edges))
                - insert serviceId visited
             \<subset> insert serviceId (targets edges) - visited"
    using 2 by auto
  moreover have "finite (insert serviceId (targets edges) - visited)"
    by (simp add: targets_def)
  ultimately show ?case by (simp add: psubset_card_mono)
next
  case (3 edges edge rest visited dependents)
  have "card (insert (target edge) (targets edges) - visited)
          \<le> card ((targets edges \<union> targets (edge # rest)) - visited)"
    by (rule card_diff_le) (auto simp: targets_def)
  then show ?case by auto
next
  case (4 edges edge rest visited dependents)
  obtain V' D' where
    r: "findDownstream edges (target edge) (visited, insert (target edge) dependents) = (V', D')"
    by (cases "findDownstream edges (target edge) (visited, insert (target edge) dependents)")
  from downstream_visited_grows(1)[OF 4] r have "visited \<subseteq> V'" by simp
  then have "card ((targets edges \<union> targets rest) - V')
          \<le> card ((targets edges \<union> targets (edge # rest)) - visited)"
    by (intro card_diff_le) (auto simp: targets_def)
  then show ?case using r by auto
qed

declare findDownstream.simps [simp del]

text \<open>The upstream traversal is the same code with \<open>source\<close> and \<open>target\<close> exchanged.\<close>

function findUpstream :: "Edge list \<Rightarrow> string \<Rightarrow> traversal \<Rightarrow> traversal"
  and forEachUpstream :: "Edge list \<Rightarrow> Edge list \<Rightarrow> traversal \<Rightarrow> traversal" where
  "findUpstream edges serviceId (visited, dependencies) =
     (if serviceId \<in> visited then (visited, dependencies)
      else forEachUpstream edges (filter (\<lambda>edge. target edge = serviceId) edges)
             (insert serviceId visited, dependencies))"
| "forEachUpstream edges [] st = st"
| "forEachUpstream edges (edge # rest) (visited, dependencies) =
     forEachUpstream edges rest
       (findUpstream edges (source edge) (visited, insert (source edge) dependencies))"
  by pat_completeness auto

lemma upstream_visited_grows:
  "findUpstream_forEachUpstream_dom (Inl (es, s, st)) \<Longrightarrow>
     fst st \<subseteq> fst (findUpstream es s st)"
  "findUpstream_forEachUpstream_dom (Inr (es, l, st)) \<Longrightarrow>
     fst st \<subseteq> fst (forEachUpstream es l st)"
proof (induction es s st and es l st rule: findUpstream_forEachUpstream.pinduct)
  case (1 edges serviceId visited dependencies)
  then show ?case by (auto simp: findUpstream.psimps)
next
  case (2 edges st)
  then show ?case by (simp add: forEachUpstream.psimps)
next
  case (3 edges edge rest visited dependencies)
  then show ?case by (auto simp: forEachUpstream.psimps)
qed

termination findUpstream
proof (relation "inv_image (less_than <*lex*> less_than)
   (\<lambda>x. case x of
      Inl (es, s, (V, D)) \<Rightarrow> (card (insert s (sources es) - V), 0::nat)
    | Inr (es, l, (V, D)) \<Rightarrow> (card ((sources es \<union> sources l) - V), Suc (length l)))",
   goal_cases)
  case 1
  show ?case by (intro wf_inv_image wf_lex_prod wf_less_than)
next
  case (2 edges serviceId visited dependencies)
  have "sources (filter (\<lambda>edge. target edge = serviceId) edges) \<subseteq> sources edges"
    by (auto simp: sources_def)
  then have "(sources edges \<union> sources (filter (\<lambda>edge. target edge = serviceId) edges))
                - insert serviceId visited
             \<subset> insert serviceId (sources edges) - visited"
    using 2 by auto
  moreover have "finite (insert serviceId (sources edges) - visited)"
    by (simp add: sources_def)
  ultimately show ?case by (simp add: psubset_card_mono)
next
  case (3 edges edge rest visited dependencies)
  have "card (insert (source edge) (sources edges) - visited)
          \<le> card ((sources edges \<union> sources (edge # rest)) - visited)"
    by (rule card_diff_le) (auto simp: sources_def)
  then show ?case by auto
next
  case (4 edges edge rest visited dependencies)
  obtain V' D' where
    r: "findUpstream edges (source edge) (visited, insert (source edge) dependencies) = (V', D')"
    by (cases "findUpstream edges (source edge) (visited, insert (source edge) dependencies)")
  from upstream_visited_grows(1)[OF 4] r have "visited \<subseteq> V'" by simp
  then have "card ((sources edges \<union> sources rest) - V')
          \<le> card ((sources edges \<union> sources (edge # rest)) - visited)"
    by (intro card_diff_le) (auto simp: sources_def)
  then show ?case using r by auto
qed

declare findUpstream.simps [simp del]

text \<open>
  Both queries start the traversal on empty sets and return the nodes of the node list
  whose id was collected, in the order of the node list. The copy of
  \<open>get_downstream_dependents\<close> in the application module is the same text.
\<close>

definition get_downstream_dependents :: "string \<Rightarrow> Node list \<Rightarrow> Edge list \<Rightarrow> Node list" where
  "get_downstream_dependents target_service_id nodes edges =
     (let (visited, dependents) = findDownstream edges target_service_id ({}, {})
      in filter (\<lambda>node. node_id node \<in> dependents) nodes)"

definition get_upstream_dependencies :: "string \<Rightarrow> Node list \<Rightarrow> Edge list \<Rightarrow> Node list" where
  "get_upstream_dependencies target_service_id nodes edges =
     (let (visited, dependencies) = findUpstream edges target_service_id ({}, {})
      in filter (\<lambda>node. node_id node \<in> dependencies) nodes)"

text \<open>The ids of a list of nodes, as the callers read them with \<open>map(node => node.id)\<close>.\<close>

definition ids :: "Node list \<Rightarrow> string set" where
  "ids nodes = node_id ` set nodes"

section \<open>Outage-affected set\<close>

text \<open>
  \<open>getElementLayout\<close> converts the service nodes and relations into temporary nodes and
  edges and then, for each service in outage, adds the service and the ids of its
  downstream dependents to \<open>outageAffectedIds\<close>.
\<close>

definition tempNodes :: "ServiceNode list \<Rightarrow> Node list" where
  "tempNodes serviceNodes =
     map (\<lambda>i. \<lparr>node_id = service_id i, position = (0, 0),
               data = \<lparr>service_id_d = service_id i, label_d = label i,
                       type_d = service_type i\<rparr>\<rparr>) serviceNodes"

definition tempEdges :: "ServiceRelation list \<Rightarrow> Edge list" where
  "tempEdges serviceEdges =
     map (\<lambda>i. \<lparr>edge_id = relation_id i, source = rel_source i, target = rel_target i\<rparr>)
       serviceEdges"

definition outageAffectedIds ::
  "ServiceNode list \<Rightarrow> ServiceRelation list \<Rightarrow> string list \<Rightarrow> string set" where
  "outageAffectedIds serviceNodes serviceEdges outageService =
     fold (\<lambda>outageServiceId affected.
             fold (\<lambda>dep acc. insert (node_id dep) acc)
               (get_downstream_dependents outageServiceId
                  (tempNodes serviceNodes) (tempEdges serviceEdges))
               (insert outageServiceId affected))
       outageService {}"

section \<open>The traversal computes the transitive closure\<close>

definition edge_rel :: "Edge list \<Rightarrow> (string \<times> string) set" where
  "edge_rel es = (\<lambda>e. (source e, target e)) ` set es"

lemma targets_filter_source:
  "targets (filter (\<lambda>edge. source edge = s) es) = edge_rel es `` {s}"
  by (auto simp: targets_def edge_rel_def image_iff)

lemma targets_Cons: "targets (e # l) = insert (target e) (targets l)"
  by (simp add: targets_def)

text \<open>Everything collected is reachable by at least one edge.\<close>

lemma findDownstream_sound:
  "snd (findDownstream es s st) \<subseteq> snd st \<union> (edge_rel es)\<^sup>+ `` {s}"
  "snd (forEachDownstream es l st)
     \<subseteq> snd st \<union> targets l \<union> (edge_rel es)\<^sup>+ `` targets l"
proof (induction es s st and es l st rule: findDownstream_forEachDownstream.induct)
  case (1 edges serviceId visited dependents)
  show ?case
  proof (cases "serviceId \<in> visited")
    case True
    then show ?thesis by (simp add: findDownstream.simps)
  next
    case False
    let ?l = "filter (\<lambda>edge. source edge = serviceId) edges"
    have t: "targets ?l \<subseteq> (edge_rel edges)\<^sup>+ `` {serviceId}"
      unfolding targets_filter_source by auto
    have "(edge_rel edges)\<^sup>+ `` targets ?l \<subseteq> (edge_rel edges)\<^sup>+ `` {serviceId}"
      unfolding targets_filter_source by (auto intro: trancl_into_trancl2)
    with t 1[OF False] False show ?thesis by (auto simp: findDownstream.simps)
  qed
next
  case (2 edges st)
  show ?case by (simp add: targets_def)
next
  case (3 edges edge rest visited dependents)
  then show ?case by (simp add: targets_Cons) blast
qed

text \<open>
  The invariant of the traversal: a call only adds to the two sets, and every node it
  newly marks as visited has all its successors both visited and collected when the
  call returns.
\<close>

definition closed_new :: "Edge list \<Rightarrow> traversal \<Rightarrow> traversal \<Rightarrow> bool" where
  "closed_new es st st' \<longleftrightarrow>
     fst st \<subseteq> fst st' \<and> snd st \<subseteq> snd st' \<and>
     (\<forall>v \<in> fst st' - fst st. edge_rel es `` {v} \<subseteq> fst st' \<inter> snd st')"

lemma findDownstream_closed:
  "closed_new es st (findDownstream es s st) \<and> s \<in> fst (findDownstream es s st)"
  "closed_new es st (forEachDownstream es l st) \<and>
     targets l \<subseteq> fst (forEachDownstream es l st) \<inter> snd (forEachDownstream es l st)"
proof (induction es s st and es l st rule: findDownstream_forEachDownstream.induct)
  case (1 edges serviceId visited dependents)
  show ?case
  proof (cases "serviceId \<in> visited")
    case True
    then show ?thesis by (simp add: closed_new_def findDownstream.simps)
  next
    case False
    show ?thesis using 1[OF False] False
      by (simp add: closed_new_def targets_filter_source findDownstream.simps) blast
  qed
next
  case (2 edges st)
  show ?case by (simp add: closed_new_def targets_def)
next
  case (3 edges edge rest visited dependents)
  then show ?case
    by (simp add: closed_new_def targets_Cons) blast
qed

lemma findDownstream_dependents:
  "snd (findDownstream es x ({}, {})) = (edge_rel es)\<^sup>+ `` {x}"
proof
  show "snd (findDownstream es x ({}, {})) \<subseteq> (edge_rel es)\<^sup>+ `` {x}"
    using findDownstream_sound(1)[of es x "({}, {})"] by simp
next
  let ?r = "findDownstream es x ({}, {})"
  from findDownstream_closed(1)[of es "({}, {})" x]
  have x: "x \<in> fst ?r"
    and cl: "\<And>v. v \<in> fst ?r \<Longrightarrow> edge_rel es `` {v} \<subseteq> fst ?r \<inter> snd ?r"
    by (auto simp: closed_new_def)
  have reach: "u \<in> fst ?r" if "(x, u) \<in> (edge_rel es)\<^sup>*" for u
    using that
  proof (induction rule: rtrancl_induct)
    case base
    show ?case by (rule x)
  next
    case (step y z)
    with cl[of y] show ?case by auto
  qed
  show "(edge_rel es)\<^sup>+ `` {x} \<subseteq> snd ?r"
  proof
    fix t assume "t \<in> (edge_rel es)\<^sup>+ `` {x}"
    then have "(x, t) \<in> (edge_rel es)\<^sup>+" by simp
    then obtain u where "(x, u) \<in> (edge_rel es)\<^sup>*" "(u, t) \<in> edge_rel es"
      by (auto dest: tranclD2)
    with reach[of u] cl[of u] show "t \<in> snd ?r" by auto
  qed
qed

text \<open>The upstream traversal is the downstream traversal of the reversed edges.\<close>

definition flipEdge :: "Edge \<Rightarrow> Edge" where
  "flipEdge e = e\<lparr>source := target e, target := source e\<rparr>"

lemma filter_flip:
  "filter (\<lambda>edge. source edge = s) (map flipEdge es)
     = map flipEdge (filter (\<lambda>edge. target edge = s) es)"
  by (induction es) (auto simp: flipEdge_def)

lemma findUpstream_flip:
  "findUpstream es s st = findDownstream (map flipEdge es) s st"
  "forEachUpstream es l st = forEachDownstream (map flipEdge es) (map flipEdge l) st"
proof (induction es s st and es l st rule: findUpstream_forEachUpstream.induct)
  case (1 edges serviceId visited dependencies)
  then show ?case
    by (simp add: findUpstream.simps findDownstream.simps filter_flip)
next
  case (2 edges st)
  show ?case by simp
next
  case (3 edges edge rest visited dependencies)
  then show ?case by (simp add: flipEdge_def)
qed

lemma edge_rel_flip: "edge_rel (map flipEdge es) = (edge_rel es)\<inverse>"
  by (auto simp: edge_rel_def flipEdge_def image_iff)

lemma findUpstream_dependencies:
  "snd (findUpstream es x ({}, {})) = ((edge_rel es)\<inverse>)\<^sup>+ `` {x}"
  by (simp add: findUpstream_flip(1) findDownstream_dependents edge_rel_flip)

lemma downstream_ids:
  "ids (get_downstream_dependents x nodes edges)
     = {n \<in> ids nodes. (x, n) \<in> (edge_rel edges)\<^sup>+}"
proof -
  have "snd (findDownstream edges x ({}, {})) = (edge_rel edges)\<^sup>+ `` {x}"
    by (rule findDownstream_dependents)
  then show ?thesis
    by (auto simp: get_downstream_dependents_def ids_def case_prod_beta)
qed

lemma upstream_ids:
  "ids (get_upstream_dependencies x nodes edges)
     = {n \<in> ids nodes. (n, x) \<in> (edge_rel edges)\<^sup>+}"
proof -
  have "snd (findUpstream edges x ({}, {})) = ((edge_rel edges)\<inverse>)\<^sup>+ `` {x}"
    by (rule findUpstream_dependencies)
  then show ?thesis
    by (auto simp: get_upstream_dependencies_def ids_def case_prod_beta trancl_converse)
qed

section \<open>Example topologies\<close>

text \<open>
  The linear chain \<open>A \<rightarrow> B \<rightarrow> C\<close> and the two-node cycle \<open>A \<rightarrow> B, B \<rightarrow> A\<close>, as service
  nodes and relations, the form in which the topology reaches the flow view.
\<close>

definition chain_nodes :: "ServiceNode list" where
  "chain_nodes = [\<lparr>service_id = ''A'', label = ''a'', service_type = Some ''db''\<rparr>,
                  \<lparr>service_id = ''B'', label = ''b'', service_type = Some ''api''\<rparr>,
                  \<lparr>service_id = ''C'', label = ''c'', service_type = None\<rparr>]"

definition chain_relations :: "ServiceRelation list" where
  "chain_relations = [\<lparr>relation_id = ''r1'', rel_source = ''A'', rel_target = ''B''\<rparr>,
                      \<lparr>relation_id = ''r2'', rel_source = ''B'', rel_target = ''C''\<rparr>]"

definition cycle_nodes :: "ServiceNode list" where
  "cycle_nodes = [\<lparr>service_id = ''A'', label = ''a'', service_type = Some ''db''\<rparr>,
                  \<lparr>service_id = ''B'', label = ''b'', service_type = Some ''api''\<rparr>]"

definition cycle_relations :: "ServiceRelation list" where
  "cycle_relations = [\<lparr>relation_id = ''r1'', rel_source = ''A'', rel_target = ''B''\<rparr>,
                      \<lparr>relation_id = ''r2'', rel_source = ''B'', rel_target = ''A''\<rparr>]"

lemmas graph_eval = get_downstream_dependents_def get_upstream_dependencies_def
  findDownstream.simps findUpstream.simps ids_def tempNodes_def tempEdges_def
  chain_nodes_def chain_relations_def cycle_nodes_def cycle_relations_def

lemma chain_downstream_A:
  "ids (get_downstream_dependents ''A'' (tempNodes chain_nodes) (tempEdges chain_relations))
     = {''B'', ''C''}"
  by (simp add: graph_eval)

lemma chain_upstream_C:
  "ids (get_upstream_dependencies ''C'' (tempNodes chain_nodes) (tempEdges chain_relations))
     = {''A'', ''B''}"
  by (simp add: graph_eval)

lemma chain_acyclic: "acyclic (edge_rel (tempEdges chain_relations))"
proof (rule acyclicI_order)
  fix a b
  assume "(a, b) \<in> edge_rel (tempEdges chain_relations)"
  then show "(if b = ''A'' then 2 else if b = ''B'' then 1 else (0::nat))
               < (if a = ''A'' then 2 else if a = ''B'' then 1 else 0)"
    by (auto simp: edge_rel_def tempEdges_def chain_relations_def)
qed

section \<open>Properties of the graph queries\<close>

text \<open>
  Claim C7. For every graph and all service ids \<open>x\<close>, \<open>y\<close>, \<open>z\<close>: if \<open>y\<close> is among the
  downstream dependents of \<open>x\<close> and \<open>z\<close> is among those of \<open>y\<close>, then \<open>z\<close> is among those of
  \<open>x\<close>. The query returns exactly the nodes of the node list that the transitive closure
  of the source-to-target edge relation relates to \<open>x\<close>.
\<close>

theorem downstream_transitive:
  "(y \<in> ids (get_downstream_dependents x nodes edges) \<and>
    z \<in> ids (get_downstream_dependents y nodes edges)
      \<longrightarrow> z \<in> ids (get_downstream_dependents x nodes edges)) \<and>
   ids (get_downstream_dependents x nodes edges)
     = {n \<in> ids nodes. (x, n) \<in> (edge_rel edges)\<^sup>+}"
  by (auto simp: downstream_ids)

theorem downstream_transitive_witness:
  "''B'' \<in> ids (get_downstream_dependents ''A'' (tempNodes chain_nodes) (tempEdges chain_relations)) \<and>
   ''C'' \<in> ids (get_downstream_dependents ''B'' (tempNodes chain_nodes) (tempEdges chain_relations)) \<and>
   ''C'' \<in> ids (get_downstream_dependents ''A'' (tempNodes chain_nodes) (tempEdges chain_relations))"
proof -
  have h1: "''B'' \<in> ids (get_downstream_dependents ''A''
                          (tempNodes chain_nodes) (tempEdges chain_relations))"
    by (simp add: graph_eval)
  have h2: "''C'' \<in> ids (get_downstream_dependents ''B''
                          (tempNodes chain_nodes) (tempEdges chain_relations))"
    by (simp add: graph_eval)
  from downstream_transitive[of "''B''" "''A''" "tempNodes chain_nodes"
         "tempEdges chain_relations" "''C''"] h1 h2
  show ?thesis by blast
qed

lemma fold_insert_ids: "fold (\<lambda>dep acc. insert (node_id dep) acc) ns A = ids ns \<union> A"
  by (induction ns arbitrary: A) (auto simp: ids_def)

lemma outage_fold:
  "fold (\<lambda>outageServiceId affected.
             fold (\<lambda>dep acc. insert (node_id dep) acc) (f outageServiceId)
               (insert outageServiceId affected)) roots A
   = A \<union> set roots \<union> (\<Union>r\<in>set roots. ids (f r))"
  by (induction roots arbitrary: A) (auto simp: fold_insert_ids)

text \<open>
  Claim C8. For every graph and every list of outage roots, the outage-affected set is
  the union of the roots with the ids of the downstream dependents of every root; it is
  exactly the root set when no root has a downstream dependent, and it is empty when
  there is no root.
\<close>

theorem outageAffectedIds_union:
  "outageAffectedIds serviceNodes serviceEdges outageService
     = set outageService \<union>
       (\<Union>root\<in>set outageService.
          ids (get_downstream_dependents root (tempNodes serviceNodes) (tempEdges serviceEdges))) \<and>
   ((\<forall>root\<in>set outageService.
        get_downstream_dependents root (tempNodes serviceNodes) (tempEdges serviceEdges) = [])
      \<longrightarrow> outageAffectedIds serviceNodes serviceEdges outageService = set outageService) \<and>
   outageAffectedIds serviceNodes serviceEdges [] = {}"
  by (simp add: outageAffectedIds_def outage_fold ids_def)

theorem outageAffectedIds_union_witness:
  "outageAffectedIds chain_nodes chain_relations [''A''] = {''A'', ''B'', ''C''} \<and>
   get_downstream_dependents ''C'' (tempNodes chain_nodes) (tempEdges chain_relations) = [] \<and>
   outageAffectedIds chain_nodes chain_relations [''C''] = {''C''} \<and>
   outageAffectedIds chain_nodes chain_relations [] = {}"
proof -
  have none: "get_downstream_dependents ''C'' (tempNodes chain_nodes) (tempEdges chain_relations)
                = []"
    by (simp add: graph_eval)
  from outageAffectedIds_union[of chain_nodes chain_relations "[''A'']"]
  have a: "outageAffectedIds chain_nodes chain_relations [''A''] = {''A'', ''B'', ''C''}"
    by (auto simp: chain_downstream_A)
  from outageAffectedIds_union[of chain_nodes chain_relations "[''C'']"] none
  have c: "outageAffectedIds chain_nodes chain_relations [''C''] = {''C''}"
    by (simp add: ids_def)
  from outageAffectedIds_union[of chain_nodes chain_relations "[]"]
  have e: "outageAffectedIds chain_nodes chain_relations [] = {}"
    by simp
  from none a c e show ?thesis by simp
qed

text \<open>
  Claim C2, as the code has it. The traversal collects every target it reaches, the
  origin included when an edge leads back to it: \<open>x\<close> is among its own downstream
  dependents (and among its own upstream dependencies) exactly when \<open>x\<close> is in the node
  list and lies on a directed cycle. On an acyclic graph it is in neither. For the
  two-node cycle \<open>A \<rightarrow> B, B \<rightarrow> A\<close> the traversal terminates and the downstream set of \<open>A\<close>
  and that of \<open>B\<close> are both \<open>{A, B}\<close>.
\<close>

theorem self_member_iff_cycle:
  "(x \<in> ids (get_downstream_dependents x nodes edges)
      \<longleftrightarrow> x \<in> ids nodes \<and> (x, x) \<in> (edge_rel edges)\<^sup>+) \<and>
   (x \<in> ids (get_upstream_dependencies x nodes edges)
      \<longleftrightarrow> x \<in> ids nodes \<and> (x, x) \<in> (edge_rel edges)\<^sup>+) \<and>
   (acyclic (edge_rel edges) \<longrightarrow>
      x \<notin> ids (get_downstream_dependents x nodes edges) \<and>
      x \<notin> ids (get_upstream_dependencies x nodes edges)) \<and>
   ids (get_downstream_dependents ''A'' (tempNodes cycle_nodes) (tempEdges cycle_relations))
     = {''A'', ''B''} \<and>
   ids (get_downstream_dependents ''B'' (tempNodes cycle_nodes) (tempEdges cycle_relations))
     = {''A'', ''B''}"
proof -
  have two_cycle:
    "ids (get_downstream_dependents ''A'' (tempNodes cycle_nodes) (tempEdges cycle_relations))
       = {''A'', ''B''}"
    "ids (get_downstream_dependents ''B'' (tempNodes cycle_nodes) (tempEdges cycle_relations))
       = {''A'', ''B''}"
    by (simp_all add: graph_eval insert_commute)
  have general:
    "x \<in> ids (get_downstream_dependents x nodes edges)
       \<longleftrightarrow> x \<in> ids nodes \<and> (x, x) \<in> (edge_rel edges)\<^sup>+"
    "x \<in> ids (get_upstream_dependencies x nodes edges)
       \<longleftrightarrow> x \<in> ids nodes \<and> (x, x) \<in> (edge_rel edges)\<^sup>+"
    by (simp_all add: downstream_ids upstream_ids)
  from general two_cycle show ?thesis
    by (simp add: acyclic_def)
qed

theorem self_member_iff_cycle_witness:
  "acyclic (edge_rel (tempEdges chain_relations)) \<and>
   ''A'' \<notin> ids (get_downstream_dependents ''A'' (tempNodes chain_nodes) (tempEdges chain_relations)) \<and>
   ''A'' \<notin> ids (get_upstream_dependencies ''A'' (tempNodes chain_nodes) (tempEdges chain_relations))"
  using self_member_iff_cycle[of "''A''" "tempNodes chain_nodes" "tempEdges chain_relations"]
    chain_acyclic
  by blast

text \<open>
  The claim as the specification states it fails on the two-node cycle: \<open>A\<close> is among its
  own downstream dependents and among its own upstream dependencies, and the downstream
  set of \<open>A\<close> is not \<open>{B}\<close>.
\<close>

theorem origin_excluded_counterexample:
  "''A'' \<in> ids (get_downstream_dependents ''A'' (tempNodes cycle_nodes) (tempEdges cycle_relations)) \<and>
   ''A'' \<in> ids (get_upstream_dependencies ''A'' (tempNodes cycle_nodes) (tempEdges cycle_relations)) \<and>
   ids (get_downstream_dependents ''A'' (tempNodes cycle_nodes) (tempEdges cycle_relations))
     \<noteq> {''B''}"
  by (simp add: graph_eval)

section \<open>Status summary per service type\<close>

text \<open>
  \<open>statusSummaryByType\<close> of \<open>ServiceList.tsx\<close>. The service list keeps, per service type,
  the counts of services in each status. The type \<open>ServiceStatusSummary\<close> is declared in
  the model module: the record below has the one field the summary reads, and the
  functions accept any extension of it. The status code is a number that may be missing.
  The status map is read only through \<open>statusMap[service.service_id]\<close>; the map of the
  model is what that lookup yields.
\<close>

record StatusSummaryCounts =
  ok :: nat
  degraded :: nat
  failed :: nat
  starting :: nat
  stopped :: nat
  unknown :: nat
  others :: nat
  total :: nat

record ServiceStatusSummary =
  last_status_code :: "int option"

text \<open>The object literal a type gets when it is first seen.\<close>

definition emptyCounts :: StatusSummaryCounts where
  "emptyCounts = \<lparr>ok = 0, degraded = 0, failed = 0, starting = 0, stopped = 0,
                   unknown = 0, others = 0, total = 0\<rparr>"

text \<open>\<open>service.service_type ?? 'Unknown'\<close> and \<open>statusMap[service.service_id]?.last_status_code ?? null\<close>.\<close>

definition typeOf :: "ServiceNode \<Rightarrow> string" where
  "typeOf service = (case service_type service of Some t \<Rightarrow> t | None \<Rightarrow> ''Unknown'')"

definition statusCodeOf ::
  "(string \<rightharpoonup> 'a ServiceStatusSummary_scheme) \<Rightarrow> ServiceNode \<Rightarrow> int option" where
  "statusCodeOf statusMap service =
     (case statusMap (service_id service) of
        None \<Rightarrow> None
      | Some st \<Rightarrow> last_status_code st)"

text \<open>The \<open>switch\<close> on the status code; \<open>null\<close> and \<open>undefined\<close> are both \<open>None\<close>.\<close>

definition switchStatusCode :: "int option \<Rightarrow> StatusSummaryCounts \<Rightarrow> StatusSummaryCounts" where
  "switchStatusCode statusCode counts =
     (if statusCode = Some 0 then counts\<lparr>ok := ok counts + 1\<rparr>
      else if statusCode = Some 1 then counts\<lparr>degraded := degraded counts + 1\<rparr>
      else if statusCode = Some 2 then counts\<lparr>failed := failed counts + 1\<rparr>
      else if statusCode = Some 3 then counts\<lparr>starting := starting counts + 1\<rparr>
      else if statusCode = Some 4 then counts\<lparr>stopped := stopped counts + 1\<rparr>
      else if statusCode = Some 5 \<or> statusCode = None
        then counts\<lparr>unknown := unknown counts + 1\<rparr>
      else counts\<lparr>others := others counts + 1\<rparr>)"

text \<open>
  The summary is a plain object, created by \<open>{}\<close>, so a lookup \<open>summary[type]\<close> that finds
  no entry of the summary's own goes on to the properties every object inherits. These
  are the keys whose inherited value is an object or a function, which \<open>!summary[type]\<close>
  takes for an entry that is already there.
\<close>

definition objectPrototypeKeys :: "string list" where
  "objectPrototypeKeys =
     [''constructor'', ''__proto__'', ''hasOwnProperty'', ''isPrototypeOf'',
      ''propertyIsEnumerable'', ''toLocaleString'', ''toString'', ''valueOf'',
      ''__defineGetter__'', ''__defineSetter__'', ''__lookupGetter__'', ''__lookupSetter__'']"

text \<open>
  The body of the \<open>forEach\<close>. When the type has no entry and names no inherited property,
  the counts object of the type is created. Then the \<open>total\<close> of the counts object is
  incremented and the bucket of the status code; the object is mutated in place, which
  for the map is writing the new counts back under the type. When the type has no entry
  but names an inherited property, no entry is created and \<open>counts\<close> is the inherited
  object: the increments are written onto that object (where they make \<open>NaN\<close>) and the
  summary stays as it is. The second component of the state lists the types for which
  that happened.
\<close>

definition summaryStep ::
  "(string \<rightharpoonup> 'a ServiceStatusSummary_scheme) \<Rightarrow> ServiceNode \<Rightarrow>
     (string \<rightharpoonup> StatusSummaryCounts) \<times> string list \<Rightarrow>
     (string \<rightharpoonup> StatusSummaryCounts) \<times> string list" where
  "summaryStep statusMap service st =
     (let summary = fst st;
          inheritedWrites = snd st;
          type = typeOf service;
          statusCode = statusCodeOf statusMap service
      in case summary type of
           None \<Rightarrow>
             if type \<in> set objectPrototypeKeys
             then (summary, inheritedWrites @ [type])
             else (summary(type \<mapsto>
                      switchStatusCode statusCode (emptyCounts\<lparr>total := total emptyCounts + 1\<rparr>)),
                   inheritedWrites)
         | Some counts \<Rightarrow>
             (summary(type \<mapsto>
                switchStatusCode statusCode (counts\<lparr>total := total counts + 1\<rparr>)),
              inheritedWrites))"

definition statusSummaryRun ::
  "ServiceNode list \<Rightarrow> (string \<rightharpoonup> 'a ServiceStatusSummary_scheme) \<Rightarrow>
     (string \<rightharpoonup> StatusSummaryCounts) \<times> string list" where
  "statusSummaryRun services statusMap = fold (summaryStep statusMap) services (Map.empty, [])"

text \<open>The value of the memo is the summary object.\<close>

definition statusSummaryByType ::
  "ServiceNode list \<Rightarrow> (string \<rightharpoonup> 'a ServiceStatusSummary_scheme) \<Rightarrow>
     (string \<rightharpoonup> StatusSummaryCounts)" where
  "statusSummaryByType services statusMap = fst (statusSummaryRun services statusMap)"

text \<open>
  The specification's side of the comparison: the member nodes of a group, the bucket of
  a status code after the glossary (0 to 5, no record or no code counted as unknown,
  anything else as others), and the tally that counts the members of each bucket.
\<close>

definition members :: "ServiceNode list \<Rightarrow> string \<Rightarrow> ServiceNode list" where
  "members services g = filter (\<lambda>service. typeOf service = g) services"

datatype bucket = Ok | Degraded | Failed | Starting | Stopped | Unknown | Others

definition bucketOf :: "int option \<Rightarrow> bucket" where
  "bucketOf statusCode =
     (case statusCode of
        None \<Rightarrow> Unknown
      | Some c \<Rightarrow>
          if c = 0 then Ok else if c = 1 then Degraded else if c = 2 then Failed
          else if c = 3 then Starting else if c = 4 then Stopped
          else if c = 5 then Unknown else Others)"

definition inBucket :: "bucket \<Rightarrow>
   (string \<rightharpoonup> 'a ServiceStatusSummary_scheme) \<Rightarrow> ServiceNode list \<Rightarrow> nat" where
  "inBucket b statusMap ms =
     length (filter (\<lambda>service. bucketOf (statusCodeOf statusMap service) = b) ms)"

definition tallyOf :: "(string \<rightharpoonup> 'a ServiceStatusSummary_scheme) \<Rightarrow> ServiceNode list \<Rightarrow> StatusSummaryCounts" where
  "tallyOf statusMap ms =
     \<lparr>ok = inBucket Ok statusMap ms,
      degraded = inBucket Degraded statusMap ms,
      failed = inBucket Failed statusMap ms,
      starting = inBucket Starting statusMap ms,
      stopped = inBucket Stopped statusMap ms,
      unknown = inBucket Unknown statusMap ms,
      others = inBucket Others statusMap ms,
      total = length ms\<rparr>"

lemma tallyOf_Nil: "tallyOf statusMap [] = emptyCounts"
  by (simp add: tallyOf_def inBucket_def emptyCounts_def)

lemma tallyOf_snoc:
  "tallyOf statusMap (ms @ [s])
     = switchStatusCode (statusCodeOf statusMap s)
         ((tallyOf statusMap ms)\<lparr>total := total (tallyOf statusMap ms) + 1\<rparr>)"
  by (cases "statusCodeOf statusMap s")
     (simp_all add: tallyOf_def inBucket_def switchStatusCode_def bucketOf_def)

text \<open>
  For a type that names no inherited property the summary is the tally of the members;
  a type that names one never gets an entry.
\<close>

lemma summary_fold:
  "fst (fold (summaryStep statusMap) services (Map.empty, [])) g
     = (if members services g = [] \<or> g \<in> set objectPrototypeKeys then None
        else Some (tallyOf statusMap (members services g)))"
proof (induction services arbitrary: g rule: rev_induct)
  case Nil
  show ?case by (simp add: members_def)
next
  case (snoc s services)
  let ?st = "fold (summaryStep statusMap) services (Map.empty, [])"
  have step: "fold (summaryStep statusMap) (services @ [s]) (Map.empty, [])
                = summaryStep statusMap s ?st"
    by simp
  show ?case
  proof (cases "typeOf s = g")
    case False
    then have "fst (summaryStep statusMap s ?st) g = fst ?st g"
      by (simp add: summaryStep_def Let_def split: option.splits)
    with False snoc[of g] show ?thesis
      unfolding step by (simp add: members_def)
  next
    case True
    note ih = snoc[of g]
    show ?thesis
    proof (cases "g \<in> set objectPrototypeKeys")
      case inh: True
      with ih have "fst ?st g = None" by simp
      with True inh have "fst (summaryStep statusMap s ?st) g = None"
        by (simp add: summaryStep_def Let_def)
      with inh show ?thesis unfolding step by simp
    next
      case own: False
      have ms: "members (services @ [s]) g = members services g @ [s]"
        using True by (simp add: members_def)
      show ?thesis
      proof (cases "members services g = []")
        case True
        with ih have "fst ?st g = None" by simp
        with \<open>typeOf s = g\<close> own
        have "fst (summaryStep statusMap s ?st) g
                = Some (switchStatusCode (statusCodeOf statusMap s)
                          (emptyCounts\<lparr>total := total emptyCounts + 1\<rparr>))"
          by (simp add: summaryStep_def Let_def)
        with own True tallyOf_snoc[of statusMap "[]" s] show ?thesis
          unfolding step ms by (simp add: tallyOf_Nil)
      next
        case False
        with ih own have "fst ?st g = Some (tallyOf statusMap (members services g))" by simp
        with \<open>typeOf s = g\<close>
        have "fst (summaryStep statusMap s ?st) g
                = Some (switchStatusCode (statusCodeOf statusMap s)
                          ((tallyOf statusMap (members services g))
                             \<lparr>total := total (tallyOf statusMap (members services g)) + 1\<rparr>))"
          by (simp add: summaryStep_def Let_def)
        with own show ?thesis
          unfolding step ms by (simp add: tallyOf_snoc)
      qed
    qed
  qed
qed

lemma tally_sum:
  "ok (tallyOf statusMap ms) + degraded (tallyOf statusMap ms) + failed (tallyOf statusMap ms)
   + starting (tallyOf statusMap ms) + stopped (tallyOf statusMap ms)
   + unknown (tallyOf statusMap ms) + others (tallyOf statusMap ms) = total (tallyOf statusMap ms)"
  by (induction ms rule: rev_induct)
     (simp_all add: tallyOf_snoc tallyOf_Nil emptyCounts_def switchStatusCode_def)

text \<open>
  For every node list and every status assignment, a group whose type names no inherited
  property has an entry exactly when it has a member, and the entry is the tally of its
  members: each member is counted in the one bucket of its status code (a node with no
  record as unknown), the total is the number of members, and the seven bucket counts
  add up to the total.
\<close>

lemma statusSummaryByType_tally:
  assumes "g \<notin> set objectPrototypeKeys"
  shows "statusSummaryByType services statusMap g
           = (if members services g = [] then None
              else Some (tallyOf statusMap (members services g)))"
    and "statusSummaryByType services statusMap g = Some c \<Longrightarrow>
           total c = length (members services g) \<and>
           ok c + degraded c + failed c + starting c + stopped c + unknown c + others c
             = total c"
proof -
  show eq: "statusSummaryByType services statusMap g
     = (if members services g = [] then None
        else Some (tallyOf statusMap (members services g)))"
    unfolding statusSummaryByType_def statusSummaryRun_def using assms
    by (simp add: summary_fold)
  have "total (tallyOf statusMap (members services g)) = length (members services g)"
    by (simp add: tallyOf_def)
  with eq tally_sum[of statusMap "members services g"]
  show "statusSummaryByType services statusMap g = Some c \<Longrightarrow>
           total c = length (members services g) \<and>
           ok c + degraded c + failed c + starting c + stopped c + unknown c + others c
             = total c"
    by (auto split: if_splits)
qed

definition example_statusMap :: "string \<rightharpoonup> ServiceStatusSummary" where
  "example_statusMap = [''A'' \<mapsto> \<lparr>last_status_code = Some 0\<rparr>,
                        ''B'' \<mapsto> \<lparr>last_status_code = Some 7\<rparr>]"

lemma chain_summary:
  "statusSummaryByType chain_nodes example_statusMap ''Unknown''
     = Some \<lparr>ok = 0, degraded = 0, failed = 0, starting = 0, stopped = 0,
             unknown = 1, others = 0, total = 1\<rparr>"
  "statusSummaryByType chain_nodes example_statusMap ''api''
     = Some \<lparr>ok = 0, degraded = 0, failed = 0, starting = 0, stopped = 0,
             unknown = 0, others = 1, total = 1\<rparr>"
  "statusSummaryByType chain_nodes example_statusMap ''none'' = None"
proof -
  have m: "members chain_nodes ''Unknown'' = [\<lparr>service_id = ''C'', label = ''c'', service_type = None\<rparr>]"
    "members chain_nodes ''api'' = [\<lparr>service_id = ''B'', label = ''b'', service_type = Some ''api''\<rparr>]"
    "members chain_nodes ''none'' = []"
    by (simp_all add: members_def chain_nodes_def typeOf_def)
  have k: "''Unknown'' \<notin> set objectPrototypeKeys" "''api'' \<notin> set objectPrototypeKeys"
    "''none'' \<notin> set objectPrototypeKeys"
    by (simp_all add: objectPrototypeKeys_def)
  show "statusSummaryByType chain_nodes example_statusMap ''Unknown''
     = Some \<lparr>ok = 0, degraded = 0, failed = 0, starting = 0, stopped = 0,
             unknown = 1, others = 0, total = 1\<rparr>"
    by (simp add: statusSummaryByType_tally(1)[OF k(1)] m tallyOf_def inBucket_def
          statusCodeOf_def example_statusMap_def bucketOf_def)
  show "statusSummaryByType chain_nodes example_statusMap ''api''
     = Some \<lparr>ok = 0, degraded = 0, failed = 0, starting = 0, stopped = 0,
             unknown = 0, others = 1, total = 1\<rparr>"
    by (simp add: statusSummaryByType_tally(1)[OF k(2)] m tallyOf_def inBucket_def
          statusCodeOf_def example_statusMap_def bucketOf_def)
  show "statusSummaryByType chain_nodes example_statusMap ''none'' = None"
    by (simp add: statusSummaryByType_tally(1)[OF k(3)] m)
qed

definition inherited_services :: "ServiceNode list" where
  "inherited_services =
     [\<lparr>service_id = ''A'', label = ''a'', service_type = Some ''constructor''\<rparr>]"

text \<open>
  Claim C9. Every group's total should equal the number of its member nodes, for every
  node list. It does not for a group whose type names an inherited property: the one
  service of type \<open>constructor\<close> is a member of its group, but the summary gets no entry
  for the group, and the increments meant for the group are written onto the inherited
  object.
\<close>

theorem inherited_type_not_tallied:
  "length (members inherited_services ''constructor'') = 1 \<and>
   statusSummaryByType inherited_services example_statusMap ''constructor'' = None \<and>
   snd (statusSummaryRun inherited_services example_statusMap) = [''constructor'']"
  by (simp add: inherited_services_def members_def typeOf_def statusSummaryByType_def
        statusSummaryRun_def summaryStep_def objectPrototypeKeys_def Let_def)

section \<open>Status manager: data model\<close>

text \<open>
  The class \<open>StatusManager\<close> of \<open>statusManager.tsx\<close>. A status record is an object: the
  manager stores and hands out references to it, and two holders of a reference see
  each other's writes. Records therefore live in a heap, and a status map takes a
  service id to the reference of its record. The optional metrics are numbers the
  manager never computes with; they are kept as integers. The field \<open>service_id\<close> of a
  status record is named \<open>service_id_s\<close>.
\<close>

type_synonym ref = nat

record ServiceStatus =
  service_id_s :: string
  status_code :: int
  message :: string
  last_check :: string
  response_time_ms :: "int option"
  cpu_usage :: "int option"
  memory_usage :: "int option"
  details :: "string option"

type_synonym ServiceStatusMap = "string \<rightharpoonup> ref"

text \<open>
  A status map is an object too. The field \<open>statusMap\<close> of the manager is assigned once
  and always refers to the same map object; every call of \<open>getStatusMap\<close> creates a new
  one. A reference to a map object is therefore either the manager's own map or the
  \<open>n\<close>-th map object created since the start, and whoever holds a reference can read and
  write the object it refers to.
\<close>

datatype mapref = ThisStatusMap | Allocated nat

text \<open>
  A subscriber is a function of the application. The manager only ever calls it, inside a
  \<open>try\<close>, so a callback is modelled by its identity (the sets of callbacks compare
  functions by identity) and by whether the call throws on a given argument. What a
  callback does with its argument, and a callback that calls back into the manager while
  it is being notified, are outside the model. A status callback is handed a snapshot:
  the reference of a map object, given here together with the entries the object has at
  the call. Every call and every error written to the console is recorded in the trace.
\<close>

record 'a callback =
  cb_id :: nat
  cb_throws :: "'a \<Rightarrow> bool"

type_synonym snapshot = "mapref \<times> ServiceStatusMap"

datatype event =
    StatusCallback nat snapshot
  | ErrorCallback nat string
  | ConsoleError string

text \<open>
  The platform objects the manager holds handles of: event streams and sockets with
  their ready state, the interval timer of the fallback poller with the time of its next
  firing, and the one-shot timers of pending reconnection attempts, which the manager
  keeps no handle of, and the times at which the poll timer has fired. Times are in
  milliseconds; a handler takes the time at which it
  runs as \<open>now\<close>, and a timer set at \<open>now\<close> with delay \<open>d\<close> is due at \<open>now + d\<close>.
\<close>

datatype readyState = CONNECTING | OPEN | CLOSING | CLOSED

record interval =
  due :: nat
  period :: nat

text \<open>The fields of the class, and the world around it.\<close>

record StatusManager =
  serviceIds :: "string list"
  statusMap :: ServiceStatusMap
  sseConnection :: "nat option"
  wsConnection :: "nat option"
  pollInterval :: "interval option"
  statusUpdateCallbacks :: "snapshot callback list"
  errorCallbacks :: "string callback list"
  FALLBACK_POLL_INTERVAL :: nat
  SSE_ENABLED :: bool
  WS_ENABLED :: bool

record World = StatusManager +
  heap :: "ref \<rightharpoonup> ServiceStatus"
  allocated :: "ServiceStatusMap list"
  streams :: "readyState list"
  sockets :: "readyState list"
  timeouts :: "nat list"
  polls :: "nat list"
  trace :: "event list"

record StatusManagerOptions =
  opt_serviceIds :: "string list"
  enableSSE :: "bool option"
  enableWebSocket :: "bool option"
  fallbackPollInterval :: "nat option"

section \<open>Status manager: operations\<close>

text \<open>The constructor; \<open>||\<close> replaces a missing or zero interval, \<open>??\<close> a missing flag.\<close>

definition newStatusManager :: "StatusManagerOptions \<Rightarrow> World" where
  "newStatusManager options =
     \<lparr>serviceIds = opt_serviceIds options,
      statusMap = Map.empty,
      sseConnection = None,
      wsConnection = None,
      pollInterval = None,
      statusUpdateCallbacks = [],
      errorCallbacks = [],
      FALLBACK_POLL_INTERVAL =
        (case fallbackPollInterval options of
           None \<Rightarrow> 30000
         | Some n \<Rightarrow> if n = 0 then 30000 else n),
      SSE_ENABLED = (case enableSSE options of None \<Rightarrow> True | Some b \<Rightarrow> b),
      WS_ENABLED = (case enableWebSocket options of None \<Rightarrow> False | Some b \<Rightarrow> b),
      heap = Map.empty, allocated = [], streams = [], sockets = [], timeouts = [],
      polls = [], trace = []\<rparr>"

text \<open>\<open>Set.add\<close> and \<open>Set.delete\<close> on a set kept in insertion order.\<close>

definition set_add :: "'a callback \<Rightarrow> 'a callback list \<Rightarrow> 'a callback list" where
  "set_add cb cbs = (if cb_id cb \<in> cb_id ` set cbs then cbs else cbs @ [cb])"

definition set_delete :: "'a callback \<Rightarrow> 'a callback list \<Rightarrow> 'a callback list" where
  "set_delete cb cbs = filter (\<lambda>c. cb_id c \<noteq> cb_id cb) cbs"

definition onStatusUpdate :: "snapshot callback \<Rightarrow> World \<Rightarrow> World" where
  "onStatusUpdate callback w =
     w\<lparr>statusUpdateCallbacks := set_add callback (statusUpdateCallbacks w)\<rparr>"

definition unsubscribeStatus :: "snapshot callback \<Rightarrow> World \<Rightarrow> World" where
  "unsubscribeStatus callback w =
     w\<lparr>statusUpdateCallbacks := set_delete callback (statusUpdateCallbacks w)\<rparr>"

definition onError :: "string callback \<Rightarrow> World \<Rightarrow> World" where
  "onError callback w = w\<lparr>errorCallbacks := set_add callback (errorCallbacks w)\<rparr>"

definition unsubscribeError :: "string callback \<Rightarrow> World \<Rightarrow> World" where
  "unsubscribeError callback w =
     w\<lparr>errorCallbacks := set_delete callback (errorCallbacks w)\<rparr>"

text \<open>
  Closing an event stream makes it closed at once; closing a socket that is connecting or
  open makes it closing, and its close event follows later.
\<close>

definition closeStream :: "nat \<Rightarrow> readyState list \<Rightarrow> readyState list" where
  "closeStream h ss = ss[h := CLOSED]"

definition closeSocket :: "nat \<Rightarrow> readyState list \<Rightarrow> readyState list" where
  "closeSocket h ss =
     (if h < length ss \<and> (ss ! h = CONNECTING \<or> ss ! h = OPEN) then ss[h := CLOSING] else ss)"

definition cleanup :: "World \<Rightarrow> World" where
  "cleanup w =
     (let w1 = (case sseConnection w of
                  Some h \<Rightarrow> w\<lparr>sseConnection := None, streams := closeStream h (streams w)\<rparr>
                | None \<Rightarrow> w);
          w2 = (case wsConnection w1 of
                  Some h \<Rightarrow> w1\<lparr>wsConnection := None, sockets := closeSocket h (sockets w1)\<rparr>
                | None \<Rightarrow> w1);
          w3 = (case pollInterval w2 of
                  Some t \<Rightarrow> w2\<lparr>pollInterval := None\<rparr>
                | None \<Rightarrow> w2)
      in w3\<lparr>statusUpdateCallbacks := [], errorCallbacks := []\<rparr>)"

text \<open>Reading the entries of a map object, and replacing them, through a reference.\<close>

definition readMap :: "World \<Rightarrow> mapref \<Rightarrow> ServiceStatusMap" where
  "readMap w r =
     (case r of
        ThisStatusMap \<Rightarrow> statusMap w
      | Allocated n \<Rightarrow> if n < length (allocated w) then allocated w ! n else Map.empty)"

definition writeMap :: "mapref \<Rightarrow> ServiceStatusMap \<Rightarrow> World \<Rightarrow> World" where
  "writeMap r entries w =
     (case r of
        ThisStatusMap \<Rightarrow> w\<lparr>statusMap := entries\<rparr>
      | Allocated n \<Rightarrow> w\<lparr>allocated := (allocated w)[n := entries]\<rparr>)"

text \<open>
  \<open>getStatusMap\<close> is \<open>{ ...this.statusMap }\<close>: it creates a new map object with the entries
  of the manager's map, the same ids mapped to the same record references, and returns
  the reference of the new object. \<open>getServiceStatus\<close> returns the record reference the
  manager's map has for the id, or \<open>null\<close>.
\<close>

definition getStatusMap :: "World \<Rightarrow> mapref \<times> World" where
  "getStatusMap w =
     (Allocated (length (allocated w)), w\<lparr>allocated := allocated w @ [statusMap w]\<rparr>)"

definition getServiceStatus :: "World \<Rightarrow> string \<Rightarrow> ref option" where
  "getServiceStatus w serviceId = statusMap w serviceId"

text \<open>
  The body of the two \<open>forEach\<close> loops over the callbacks: the call inside \<open>try\<close>, and
  the \<open>catch\<close> that writes to the console.
\<close>

definition tryCallback :: "(nat \<Rightarrow> 'a \<Rightarrow> event) \<Rightarrow> string \<Rightarrow> 'a \<Rightarrow> 'a callback \<Rightarrow> World \<Rightarrow> World" where
  "tryCallback called msg arg callback w =
     (let w1 = w\<lparr>trace := trace w @ [called (cb_id callback) arg]\<rparr>
      in if cb_throws callback arg then w1\<lparr>trace := trace w1 @ [ConsoleError msg]\<rparr> else w1)"

definition notifyStatusUpdate :: "World \<Rightarrow> World" where
  "notifyStatusUpdate w =
     (let (statusMapRef, w1) = getStatusMap w
      in fold (tryCallback StatusCallback ''Error in status update callback:''
                 (statusMapRef, readMap w1 statusMapRef))
           (statusUpdateCallbacks w1) w1)"

definition notifyError :: "string \<Rightarrow> World \<Rightarrow> World" where
  "notifyError error w =
     fold (tryCallback ErrorCallback ''Error in error callback:'' error) (errorCallbacks w) w"

definition updateServiceStatus :: "string \<Rightarrow> ref \<Rightarrow> World \<Rightarrow> World" where
  "updateServiceStatus serviceId status w =
     notifyStatusUpdate (w\<lparr>statusMap := (statusMap w)(serviceId \<mapsto> status)\<rparr>)"


definition fetchAllStatus :: "string + ServiceStatusMap \<Rightarrow> World \<Rightarrow> World" where
  "fetchAllStatus response w =
     (case response of
        Inr batch \<Rightarrow>
          fold (\<lambda>serviceId w.
                  case batch serviceId of
                    Some status \<Rightarrow> updateServiceStatus serviceId status w
                  | None \<Rightarrow> w)
            (serviceIds w) w
      | Inl error \<Rightarrow> notifyError (''Failed to fetch batch status: '' @ error) w)"

text \<open>The fallback poller.\<close>

definition startFallbackPolling :: "nat \<Rightarrow> World \<Rightarrow> World" where
  "startFallbackPolling now w =
     w\<lparr>pollInterval := Some \<lparr>due = now + FALLBACK_POLL_INTERVAL w,
                              period = FALLBACK_POLL_INTERVAL w\<rparr>\<rparr>"

definition resetFallbackPolling :: "nat \<Rightarrow> World \<Rightarrow> World" where
  "resetFallbackPolling now w =
     (case pollInterval w of
        Some t \<Rightarrow> startFallbackPolling now w
      | None \<Rightarrow> w)"

definition accelerateFallbackPolling :: "nat \<Rightarrow> World \<Rightarrow> World" where
  "accelerateFallbackPolling now w =
     (case pollInterval w of
        Some t \<Rightarrow> w\<lparr>pollInterval := Some \<lparr>due = now + 5000, period = 5000\<rparr>\<rparr>
      | None \<Rightarrow> w)"

text \<open>
  The handlers of the event stream. The data of a message either fails to parse or is a
  status update, given by its service id and the reference of the parsed object.
  Creating the stream may throw, which is the argument \<open>thrown\<close>.
\<close>

datatype sse_data = SseMalformed string | SseStatusUpdate string ref

definition sse_onmessage :: "nat \<Rightarrow> sse_data \<Rightarrow> World \<Rightarrow> World" where
  "sse_onmessage now event w =
     (case event of
        SseStatusUpdate serviceId statusUpdate \<Rightarrow>
          if serviceId \<in> set (serviceIds w)
          then resetFallbackPolling now (updateServiceStatus serviceId statusUpdate w)
          else w
      | SseMalformed error \<Rightarrow> notifyError (''SSE message parsing error: '' @ error) w)"

definition sse_onerror :: "nat \<Rightarrow> World \<Rightarrow> World" where
  "sse_onerror now w =
     accelerateFallbackPolling now (w\<lparr>trace := trace w @ [ConsoleError ''SSE connection error:'']\<rparr>)"

definition establishSSEConnection :: "string option \<Rightarrow> World \<Rightarrow> World" where
  "establishSSEConnection thrown w =
     (case thrown of
        None \<Rightarrow> w\<lparr>sseConnection := Some (length (streams w)),
                   streams := streams w @ [CONNECTING]\<rparr>
      | Some error \<Rightarrow> notifyError (''Failed to establish SSE connection: '' @ error) w)"

text \<open>
  The handlers of the socket. The close handler sets a one-shot timer whose callback is
  \<open>reconnectTimeout\<close>. The open handler sends the subscription and changes nothing here.
\<close>

datatype ws_message =
    WsMalformed string
  | WsStatusUpdate string ref
  | WsSubscriptionConfirmed
  | WsOther

definition establishWebSocketConnection :: "string option \<Rightarrow> World \<Rightarrow> World" where
  "establishWebSocketConnection thrown w =
     (case thrown of
        None \<Rightarrow> w\<lparr>wsConnection := Some (length (sockets w)),
                   sockets := sockets w @ [CONNECTING]\<rparr>
      | Some error \<Rightarrow> notifyError (''Failed to establish WebSocket connection: '' @ error) w)"

definition ws_onmessage :: "nat \<Rightarrow> ws_message \<Rightarrow> World \<Rightarrow> World" where
  "ws_onmessage now msg w =
     (case msg of
        WsStatusUpdate serviceId status \<Rightarrow>
          if serviceId \<in> set (serviceIds w)
          then resetFallbackPolling now (updateServiceStatus serviceId status w)
          else w
      | WsSubscriptionConfirmed \<Rightarrow> w
      | WsOther \<Rightarrow> w
      | WsMalformed error \<Rightarrow> notifyError (''WebSocket message parsing error: '' @ error) w)"

definition ws_onclose :: "nat \<Rightarrow> World \<Rightarrow> World" where
  "ws_onclose now w =
     (let w1 = accelerateFallbackPolling now w
      in w1\<lparr>timeouts := timeouts w1 @ [now + 5000]\<rparr>)"

definition ws_onerror :: "World \<Rightarrow> World" where
  "ws_onerror w =
     notifyError ''WebSocket connection error''
       (w\<lparr>trace := trace w @ [ConsoleError ''WebSocket error:'']\<rparr>)"

definition reconnectTimeout :: "string option \<Rightarrow> World \<Rightarrow> World" where
  "reconnectTimeout thrown w =
     (if (case wsConnection w of
            None \<Rightarrow> True
          | Some h \<Rightarrow> h < length (sockets w) \<and> sockets w ! h = CLOSED)
      then establishWebSocketConnection thrown w
      else w)"

text \<open>
  The platform's side. A socket opens. A socket closes: its close handler runs. A socket
  fails: the platform fires the error event and the close event one after the other, in
  the same task, so the error handler and the close handler run at the same time
  \<open>now\<close>. The oldest pending one-shot timer fires.
\<close>

definition socketOpened :: "nat \<Rightarrow> World \<Rightarrow> World" where
  "socketOpened h w = w\<lparr>sockets := (sockets w)[h := OPEN]\<rparr>"

definition socketClosed :: "nat \<Rightarrow> nat \<Rightarrow> World \<Rightarrow> World" where
  "socketClosed h now w = ws_onclose now (w\<lparr>sockets := (sockets w)[h := CLOSED]\<rparr>)"

definition socketFailed :: "nat \<Rightarrow> nat \<Rightarrow> World \<Rightarrow> World" where
  "socketFailed h now w = socketClosed h now (ws_onerror w)"

definition timeoutFired :: "string option \<Rightarrow> World \<Rightarrow> World" where
  "timeoutFired thrown w =
     (case timeouts w of
        [] \<Rightarrow> w
      | t # ts \<Rightarrow> reconnectTimeout thrown (w\<lparr>timeouts := ts\<rparr>))"

text \<open>
  The poll timer fires when it is due: its callback starts a batch fetch, which is
  recorded with the time in \<open>polls\<close>, and the timer is due again one period later (a
  period of zero, which the manager never sets, counts as one millisecond).
  \<open>runPollTimer t\<close> lets the time pass up to \<open>t\<close> with nothing happening but the poll
  timer firing.
\<close>

definition pollTimerFired :: "interval \<Rightarrow> World \<Rightarrow> World" where
  "pollTimerFired tm w =
     w\<lparr>polls := polls w @ [due tm],
       pollInterval := Some (tm\<lparr>due := due tm + max 1 (period tm)\<rparr>)\<rparr>"

function runPollTimer :: "nat \<Rightarrow> World \<Rightarrow> World" where
  "runPollTimer t w =
     (case pollInterval w of
        None \<Rightarrow> w
      | Some tm \<Rightarrow> if due tm \<le> t then runPollTimer t (pollTimerFired tm w) else w)"
  by pat_completeness auto
termination
  by (relation "measure (\<lambda>(t, w). case pollInterval w of
                                     None \<Rightarrow> 0
                                   | Some tm \<Rightarrow> Suc t - due tm)")
     (auto simp: pollTimerFired_def)

declare runPollTimer.simps [simp del]

text \<open>\<open>initialize\<close>, from the moment its batch fetch has settled.\<close>

definition initialize :: "string + ServiceStatusMap \<Rightarrow> string option \<Rightarrow> nat \<Rightarrow> World \<Rightarrow> World" where
  "initialize response thrown now w =
     (let w1 = fetchAllStatus response w;
          w2 = (if WS_ENABLED w1 then establishWebSocketConnection thrown w1
                else if SSE_ENABLED w1 then establishSSEConnection thrown w1
                else w1)
      in startFallbackPolling now w2)"

section \<open>Notification fan-out\<close>

text \<open>The calls recorded in a trace, and the snapshots one callback has received.\<close>

fun statusCalls :: "event list \<Rightarrow> (nat \<times> snapshot) list" where
  "statusCalls [] = []"
| "statusCalls (StatusCallback i snapshot # es) = (i, snapshot) # statusCalls es"
| "statusCalls (e # es) = statusCalls es"

fun errorCalls :: "event list \<Rightarrow> (nat \<times> string) list" where
  "errorCalls [] = []"
| "errorCalls (ErrorCallback i error # es) = (i, error) # errorCalls es"
| "errorCalls (e # es) = errorCalls es"

definition received :: "nat \<Rightarrow> event list \<Rightarrow> snapshot list" where
  "received i es = map snd (filter (\<lambda>c. fst c = i) (statusCalls es))"

lemma statusCalls_append: "statusCalls (xs @ ys) = statusCalls xs @ statusCalls ys"
  by (induction xs rule: statusCalls.induct) simp_all

lemma errorCalls_append: "errorCalls (xs @ ys) = errorCalls xs @ errorCalls ys"
  by (induction xs rule: errorCalls.induct) simp_all

lemma received_append: "received i (xs @ ys) = received i xs @ received i ys"
  by (simp add: received_def statusCalls_append)

definition callEvents :: "(nat \<Rightarrow> 'a \<Rightarrow> event) \<Rightarrow> string \<Rightarrow> 'a \<Rightarrow> 'a callback list \<Rightarrow> event list" where
  "callEvents called msg arg cbs =
     concat (map (\<lambda>cb. called (cb_id cb) arg #
                        (if cb_throws cb arg then [ConsoleError msg] else [])) cbs)"

lemma fold_tryCallback:
  "fold (tryCallback called msg arg) cbs w
     = w\<lparr>trace := trace w @ callEvents called msg arg cbs\<rparr>"
  by (induction cbs arbitrary: w) (simp_all add: callEvents_def tryCallback_def Let_def)

lemma notifyStatusUpdate_eq:
  "notifyStatusUpdate w =
     w\<lparr>allocated := allocated w @ [statusMap w],
       trace := trace w @ callEvents StatusCallback ''Error in status update callback:''
                            (fst (getStatusMap w), statusMap w) (statusUpdateCallbacks w)\<rparr>"
  by (simp add: notifyStatusUpdate_def getStatusMap_def readMap_def fold_tryCallback)

lemma notifyError_eq:
  "notifyError error w =
     w\<lparr>trace := trace w @ callEvents ErrorCallback ''Error in error callback:''
                            error (errorCallbacks w)\<rparr>"
  by (simp add: notifyError_def fold_tryCallback)

lemma statusCalls_callEvents:
  "statusCalls (callEvents StatusCallback msg snapshot cbs) = map (\<lambda>cb. (cb_id cb, snapshot)) cbs"
  by (induction cbs) (simp_all add: callEvents_def)

lemma errorCalls_callEvents:
  "errorCalls (callEvents ErrorCallback msg error cbs) = map (\<lambda>cb. (cb_id cb, error)) cbs"
  by (induction cbs) (simp_all add: callEvents_def)

text \<open>
  Claim C10. For every set of subscribed status callbacks and every set of subscribed
  error callbacks, whichever of them throw: a notification calls every subscribed
  callback, in order, each with the same snapshot (the one map object created for the
  notification, holding the entries of the manager's map) or the same error. A throwing
  callback is caught on its own and stops no other callback from being called.
\<close>

theorem notify_reaches_every_callback:
  "statusCalls (trace (notifyStatusUpdate w))
     = statusCalls (trace w)
       @ map (\<lambda>cb. (cb_id cb, fst (getStatusMap w), statusMap w)) (statusUpdateCallbacks w) \<and>
   errorCalls (trace (notifyError error w))
     = errorCalls (trace w) @ map (\<lambda>cb. (cb_id cb, error)) (errorCallbacks w) \<and>
   (\<forall>cb \<in> set (statusUpdateCallbacks w).
      (cb_id cb, fst (getStatusMap w), statusMap w)
        \<in> set (statusCalls (trace (notifyStatusUpdate w)))) \<and>
   (\<forall>cb \<in> set (errorCallbacks w).
      (cb_id cb, error) \<in> set (errorCalls (trace (notifyError error w))))"
  by (auto simp: notifyStatusUpdate_eq notifyError_eq statusCalls_append errorCalls_append
        statusCalls_callEvents errorCalls_callEvents)

section \<open>Applying a batch\<close>

text \<open>
  The callback sets hold no callback twice: adding and deleting keep the identities
  distinct. A distinct subscriber in the set receives each snapshot exactly once.
\<close>

lemma set_add_distinct:
  "distinct (map cb_id cbs) \<Longrightarrow> distinct (map cb_id (set_add cb cbs))"
  by (simp add: set_add_def)

lemma set_delete_distinct:
  "distinct (map cb_id cbs) \<Longrightarrow> distinct (map cb_id (set_delete cb cbs))"
  by (simp add: set_delete_def distinct_map_filter)

lemma received_callEvents:
  "distinct (map cb_id cbs) \<Longrightarrow> cb \<in> set cbs \<Longrightarrow>
     received (cb_id cb) (callEvents StatusCallback msg snapshot cbs) = [snapshot]"
proof -
  assume d: "distinct (map cb_id cbs)" and m: "cb \<in> set cbs"
  have "filter (\<lambda>c. fst c = cb_id cb) (map (\<lambda>cb. (cb_id cb, snapshot)) cbs)
          = [(cb_id cb, snapshot)]"
    using d m
  proof (induction cbs)
    case Nil
    then show ?case by simp
  next
    case (Cons c cbs)
    have none: "filter (\<lambda>c. fst c = i) (map (\<lambda>cb. (cb_id cb, snapshot)) cbs) = []"
      if "i \<notin> cb_id ` set cbs" for i
      using that by (induction cbs) auto
    show ?case
    proof (cases "c = cb")
      case True
      with Cons.prems none[of "cb_id cb"] show ?thesis by simp
    next
      case False
      with Cons show ?thesis by (auto simp: image_iff)
    qed
  qed
  then show ?thesis by (simp add: received_def statusCalls_callEvents)
qed

lemma updateServiceStatus_eq:
  "updateServiceStatus serviceId status w =
     w\<lparr>statusMap := (statusMap w)(serviceId \<mapsto> status),
       allocated := allocated w @ [(statusMap w)(serviceId \<mapsto> status)],
       trace := trace w @ callEvents StatusCallback ''Error in status update callback:''
                  (Allocated (length (allocated w)), (statusMap w)(serviceId \<mapsto> status))
                  (statusUpdateCallbacks w)\<rparr>"
  by (simp add: updateServiceStatus_def notifyStatusUpdate_eq getStatusMap_def)

text \<open>
  \<open>applyBatch\<close> is the loop of \<open>fetchAllStatus\<close> over a list of ids, and \<open>merged\<close> is the status
  map it leaves: an id of the list that has a record in the batch maps to that record,
  every other id to what it mapped to before.
\<close>

definition applyBatch :: "ServiceStatusMap \<Rightarrow> string list \<Rightarrow> World \<Rightarrow> World" where
  "applyBatch batch sids w =
     fold (\<lambda>serviceId w.
             case batch serviceId of
               Some status \<Rightarrow> updateServiceStatus serviceId status w
             | None \<Rightarrow> w) sids w"

lemma fetchAllStatus_Inr: "fetchAllStatus (Inr batch) w = applyBatch batch (serviceIds w) w"
  by (simp add: fetchAllStatus_def applyBatch_def)

definition merged :: "ServiceStatusMap \<Rightarrow> string list \<Rightarrow> ServiceStatusMap \<Rightarrow> ServiceStatusMap" where
  "merged batch sids old =
     (\<lambda>serviceId. if serviceId \<in> set sids
        then (case batch serviceId of Some status \<Rightarrow> Some status | None \<Rightarrow> old serviceId)
        else old serviceId)"

lemma merged_Cons_Some:
  "batch x = Some st \<Longrightarrow> merged batch xs (old(x \<mapsto> st)) = merged batch (x # xs) old"
  by (auto simp: merged_def fun_eq_iff split: option.splits)

lemma merged_Cons_None:
  "batch x = None \<Longrightarrow> merged batch xs old = merged batch (x # xs) old"
  by (auto simp: merged_def fun_eq_iff split: option.splits)

lemma applyBatch_Cons:
  "applyBatch batch (x # xs) w =
     applyBatch batch xs (case batch x of Some st \<Rightarrow> updateServiceStatus x st w | None \<Rightarrow> w)"
  by (simp add: applyBatch_def)

lemma applyBatch_callbacks:
  "statusUpdateCallbacks (applyBatch batch sids w) = statusUpdateCallbacks w"
proof (induction sids arbitrary: w)
  case Nil
  show ?case by (simp add: applyBatch_def)
next
  case (Cons x xs)
  show ?case
    unfolding applyBatch_Cons Cons
    by (cases "batch x") (simp_all add: updateServiceStatus_eq)
qed

lemma applyBatch_statusMap:
  "statusMap (applyBatch batch sids w) = merged batch sids (statusMap w)"
proof (induction sids arbitrary: w)
  case Nil
  show ?case by (simp add: applyBatch_def merged_def)
next
  case (Cons x xs)
  show ?case
  proof (cases "batch x")
    case None
    then have "statusMap (applyBatch batch (x # xs) w) = merged batch xs (statusMap w)"
      unfolding applyBatch_Cons Cons by simp
    also have "\<dots> = merged batch (x # xs) (statusMap w)"
      using None by (rule merged_Cons_None)
    finally show ?thesis .
  next
    case (Some st)
    have "statusMap (updateServiceStatus x st w) = (statusMap w)(x \<mapsto> st)"
      by (simp add: updateServiceStatus_eq)
    then have "statusMap (applyBatch batch (x # xs) w) = merged batch xs ((statusMap w)(x \<mapsto> st))"
      unfolding applyBatch_Cons Cons using Some by simp
    also have "\<dots> = merged batch (x # xs) (statusMap w)"
      using Some by (rule merged_Cons_Some)
    finally show ?thesis .
  qed
qed

lemma updateServiceStatus_received:
  assumes "distinct (map cb_id (statusUpdateCallbacks w))" and "cb \<in> set (statusUpdateCallbacks w)"
  shows "received (cb_id cb) (trace (updateServiceStatus x st w))
           = received (cb_id cb) (trace w)
             @ [(Allocated (length (allocated w)), (statusMap w)(x \<mapsto> st))]"
proof -
  have "trace (updateServiceStatus x st w)
          = trace w @ callEvents StatusCallback ''Error in status update callback:''
                        (Allocated (length (allocated w)), (statusMap w)(x \<mapsto> st))
                        (statusUpdateCallbacks w)"
    by (simp add: updateServiceStatus_eq)
  then show ?thesis
    using received_callEvents[OF assms] by (simp only: received_append)
qed

lemma applyBatch_received:
  assumes "distinct (map cb_id (statusUpdateCallbacks w))" and "cb \<in> set (statusUpdateCallbacks w)"
  shows "length (received (cb_id cb) (trace (applyBatch batch sids w)))
           = length (received (cb_id cb) (trace w)) + length (filter (\<lambda>i. batch i \<noteq> None) sids)"
  using assms
proof (induction sids arbitrary: w)
  case Nil
  show ?case by (simp add: applyBatch_def)
next
  case (Cons x xs)
  show ?case
  proof (cases "batch x")
    case None
    with Cons.IH[OF Cons.prems] show ?thesis
      unfolding applyBatch_Cons by simp
  next
    case (Some st)
    let ?w = "updateServiceStatus x st w"
    have cbs: "statusUpdateCallbacks ?w = statusUpdateCallbacks w"
      by (simp add: updateServiceStatus_eq)
    have "length (received (cb_id cb) (trace (applyBatch batch xs ?w)))
            = length (received (cb_id cb) (trace ?w)) + length (filter (\<lambda>i. batch i \<noteq> None) xs)"
      using Cons.prems by (intro Cons.IH) (simp_all only: cbs)
    also have "length (received (cb_id cb) (trace ?w)) = length (received (cb_id cb) (trace w)) + 1"
      by (simp only: updateServiceStatus_received[OF Cons.prems] length_append_singleton Suc_eq_plus1)
    finally show ?thesis
      unfolding applyBatch_Cons using Some by simp
  qed
qed

section \<open>Example managers\<close>

definition example_options :: StatusManagerOptions where
  "example_options = \<lparr>opt_serviceIds = [''A'', ''B''], enableSSE = None,
                       enableWebSocket = Some True, fallbackPollInterval = None\<rparr>"

definition listener :: "nat \<Rightarrow> bool \<Rightarrow> 'a callback" where
  "listener i faulty = \<lparr>cb_id = i, cb_throws = (\<lambda>_. faulty)\<rparr>"

definition example_batch :: ServiceStatusMap where
  "example_batch = [''A'' \<mapsto> 10, ''B'' \<mapsto> 11]"

definition subscribed_world :: World where
  "subscribed_world = onStatusUpdate (listener 1 False) (newStatusManager example_options)"

definition ws_world :: World where
  "ws_world = socketOpened 0 (initialize (Inr Map.empty) None 0 (newStatusManager example_options))"

lemmas manager_eval = example_options_def listener_def example_batch_def subscribed_world_def
  ws_world_def newStatusManager_def onStatusUpdate_def onError_def set_add_def
  fetchAllStatus_def updateServiceStatus_def notifyStatusUpdate_def notifyError_def
  tryCallback_def getStatusMap_def getServiceStatus_def readMap_def received_def cleanup_def
  initialize_def establishWebSocketConnection_def establishSSEConnection_def
  startFallbackPolling_def socketOpened_def socketClosed_def ws_onclose_def ws_onerror_def
  accelerateFallbackPolling_def resetFallbackPolling_def timeoutFired_def reconnectTimeout_def
  closeSocket_def closeStream_def Let_def

text \<open>
  Claim C1, as the code has it. \<open>fetchAllStatus\<close> applies the records of a batch one by
  one through \<open>updateServiceStatus\<close>, which notifies on every record: every subscriber
  receives one notification for each tracked service id that has a record in the batch,
  not one for the whole batch. After the batch, the lookup of each such id returns the
  record the batch holds for it (the batch is keyed by id, so it holds one record per id).
\<close>

theorem fetchAllStatus_notifies_per_record:
  "(distinct (map cb_id (statusUpdateCallbacks w)) \<and> cb \<in> set (statusUpdateCallbacks w) \<longrightarrow>
      length (received (cb_id cb) (trace (fetchAllStatus (Inr batch) w)))
        = length (received (cb_id cb) (trace w))
          + length (filter (\<lambda>serviceId. batch serviceId \<noteq> None) (serviceIds w))) \<and>
   (\<forall>serviceId \<in> set (serviceIds w). \<forall>status. batch serviceId = Some status \<longrightarrow>
      getServiceStatus (fetchAllStatus (Inr batch) w) serviceId = Some status)"
proof -
  have "getServiceStatus (fetchAllStatus (Inr batch) w) serviceId = Some status"
    if "serviceId \<in> set (serviceIds w)" "batch serviceId = Some status" for serviceId status
    using that
    by (simp add: getServiceStatus_def fetchAllStatus_Inr applyBatch_statusMap merged_def)
  then show ?thesis
    by (auto simp only: fetchAllStatus_Inr dest: applyBatch_received)
qed

theorem fetchAllStatus_notifies_per_record_witness:
  "distinct (map cb_id (statusUpdateCallbacks subscribed_world)) \<and>
   listener 1 False \<in> set (statusUpdateCallbacks subscribed_world) \<and>
   length (received 1 (trace (fetchAllStatus (Inr example_batch) subscribed_world))) = 2 \<and>
   getServiceStatus (fetchAllStatus (Inr example_batch) subscribed_world) ''B'' = Some 11"
proof -
  have h: "distinct (map cb_id (statusUpdateCallbacks subscribed_world))"
    "listener 1 False \<in> set (statusUpdateCallbacks subscribed_world)"
    "''B'' \<in> set (serviceIds subscribed_world)" "example_batch ''B'' = Some 11"
    by (simp_all add: manager_eval)
  have n: "length (filter (\<lambda>serviceId. example_batch serviceId \<noteq> None)
             (serviceIds subscribed_world)) = 2"
    "length (received (cb_id (listener 1 False :: snapshot callback))
       (trace subscribed_world)) = 0"
    "cb_id (listener 1 False :: snapshot callback) = 1"
    by (simp_all add: manager_eval)
  from fetchAllStatus_notifies_per_record[of subscribed_world "listener 1 False" example_batch] h n
  show ?thesis by simp
qed

text \<open>
  With one subscriber and a batch of two tracked records the subscriber is notified
  twice, not once.
\<close>

theorem one_notification_per_batch_counterexample:
  "length (received 1 (trace (fetchAllStatus (Inr example_batch) subscribed_world))) = 2 \<and>
   length (received 1 (trace (fetchAllStatus (Inr example_batch) subscribed_world))) \<noteq> 1"
  by (simp add: manager_eval)

definition faulty_world :: World where
  "faulty_world =
     onError (listener 8 False) (onError (listener 7 True)
       (onStatusUpdate (listener 3 False) (onStatusUpdate (listener 2 True)
          (onStatusUpdate (listener 1 False) (newStatusManager example_options)))))"

theorem notify_reaches_every_callback_witness:
  "cb_throws (listener 2 True :: snapshot callback) (fst (getStatusMap faulty_world), statusMap faulty_world) \<and>
   map fst (statusCalls (trace (notifyStatusUpdate faulty_world))) = [1, 2, 3] \<and>
   cb_throws (listener 7 True :: string callback) ''boom'' \<and>
   errorCalls (trace (notifyError ''boom'' faulty_world)) = [(7, ''boom''), (8, ''boom'')]"
proof -
  have cbs: "statusUpdateCallbacks faulty_world = [listener 1 False, listener 2 True, listener 3 False]"
    "errorCallbacks faulty_world = [listener 7 True, listener 8 False]"
    "trace faulty_world = []"
    by (simp_all add: faulty_world_def manager_eval)
  from notify_reaches_every_callback[of faulty_world "''boom''"]
  show ?thesis by (simp add: cbs listener_def comp_def)
qed

section \<open>Snapshots\<close>

text \<open>
  What the holder of a reference to a map object can do with it: assign an entry, delete
  an entry, or write to a field of the record an entry refers to (which throws when the
  entry is missing and then changes nothing). The first two change the map object the
  reference refers to, the third the record in the heap. \<open>readServiceStatus\<close> is a later
  lookup in the store, followed to the record.
\<close>

datatype mutation =
    SetEntry string ref
  | DeleteEntry string
  | SetField string "ServiceStatus \<Rightarrow> ServiceStatus"

definition mutate :: "mutation \<Rightarrow> mapref \<Rightarrow> World \<Rightarrow> World" where
  "mutate m r w =
     (case m of
        SetEntry serviceId status \<Rightarrow> writeMap r ((readMap w r)(serviceId \<mapsto> status)) w
      | DeleteEntry serviceId \<Rightarrow> writeMap r ((readMap w r)(serviceId := None)) w
      | SetField serviceId f \<Rightarrow>
          (case readMap w r serviceId of
             None \<Rightarrow> w
           | Some a \<Rightarrow>
               (case heap w a of
                  None \<Rightarrow> w
                | Some status \<Rightarrow> w\<lparr>heap := (heap w)(a \<mapsto> f status)\<rparr>)))"

definition readServiceStatus :: "World \<Rightarrow> string \<Rightarrow> ServiceStatus option" where
  "readServiceStatus w serviceId =
     (case getServiceStatus w serviceId of
        None \<Rightarrow> None
      | Some a \<Rightarrow> heap w a)"

definition example_status :: ServiceStatus where
  "example_status = \<lparr>service_id_s = ''A'', status_code = 0, message = ''fine'',
     last_check = ''2024-01-01T00:00:00Z'', response_time_ms = None, cpu_usage = None,
     memory_usage = None, details = None\<rparr>"

definition stored_world :: World where
  "stored_world = updateServiceStatus ''A'' 10
     ((newStatusManager example_options)\<lparr>heap := [10 \<mapsto> example_status]\<rparr>)"

text \<open>
  The same operations through a reference to the manager's own map do change the store:
  that a snapshot leaves it alone is due to the copy \<open>getStatusMap\<close> makes.
\<close>

lemma mutate_own_map:
  "statusMap (mutate (SetEntry serviceId status) ThisStatusMap w)
     = (statusMap w)(serviceId \<mapsto> status)"
  "statusMap (mutate (DeleteEntry serviceId) ThisStatusMap w)
     = (statusMap w)(serviceId := None)"
  by (simp_all add: mutate_def writeMap_def readMap_def)

text \<open>
  Claim C3, as the code has it. \<open>getStatusMap\<close> copies the mapping, not the records. The
  object it returns is a new one with the entries of the manager's map. Assigning or
  deleting an entry of the returned object changes that object only: the manager's map
  and the records are as before, so every later lookup is unaffected. No mutation of the
  returned value changes which record the store maps an id to. The records are shared
  with the store: a write to a field of a record reached through the snapshot changes
  that record in the heap.
\<close>

theorem snapshot_copy_is_shallow:
  "fst (getStatusMap w) \<noteq> ThisStatusMap \<and>
   readMap (snd (getStatusMap w)) (fst (getStatusMap w)) = statusMap w \<and>
   statusMap (mutate m (fst (getStatusMap w)) (snd (getStatusMap w))) = statusMap w \<and>
   heap (mutate (SetEntry serviceId status) (fst (getStatusMap w)) (snd (getStatusMap w)))
     = heap w \<and>
   heap (mutate (DeleteEntry serviceId) (fst (getStatusMap w)) (snd (getStatusMap w)))
     = heap w \<and>
   readMap (mutate (SetEntry serviceId status) (fst (getStatusMap w)) (snd (getStatusMap w)))
       (fst (getStatusMap w))
     = (statusMap w)(serviceId \<mapsto> status) \<and>
   readMap (mutate (DeleteEntry serviceId) (fst (getStatusMap w)) (snd (getStatusMap w)))
       (fst (getStatusMap w))
     = (statusMap w)(serviceId := None) \<and>
   heap (mutate (SetField serviceId f) (fst (getStatusMap w)) (snd (getStatusMap w)))
     = (case statusMap w serviceId of
          None \<Rightarrow> heap w
        | Some a \<Rightarrow> (case heap w a of
                       None \<Rightarrow> heap w
                     | Some status \<Rightarrow> (heap w)(a \<mapsto> f status)))"
proof -
  let ?r = "fst (getStatusMap w)" and ?w = "snd (getStatusMap w)"
  have r: "?r = Allocated (length (allocated w))"
    and w: "?w = w\<lparr>allocated := allocated w @ [statusMap w]\<rparr>"
    by (simp_all add: getStatusMap_def)
  have rd: "readMap ?w ?r = statusMap w"
    unfolding r w by (simp add: readMap_def)
  have frame: "statusMap (mutate m ?r ?w) = statusMap w"
    unfolding r w by (cases m) (simp_all add: mutate_def writeMap_def split: option.splits)
  have h1: "heap (mutate (SetEntry serviceId status) ?r ?w) = heap w"
    and h2: "heap (mutate (DeleteEntry serviceId) ?r ?w) = heap w"
    unfolding r w by (simp_all add: mutate_def writeMap_def)
  have s1: "readMap (mutate (SetEntry serviceId status) ?r ?w) ?r
              = (statusMap w)(serviceId \<mapsto> status)"
    and s2: "readMap (mutate (DeleteEntry serviceId) ?r ?w) ?r
              = (statusMap w)(serviceId := None)"
    unfolding r w by (simp_all add: mutate_def writeMap_def readMap_def)
  have h3: "heap (mutate (SetField serviceId f) ?r ?w)
     = (case statusMap w serviceId of
          None \<Rightarrow> heap w
        | Some a \<Rightarrow> (case heap w a of
                       None \<Rightarrow> heap w
                     | Some status \<Rightarrow> (heap w)(a \<mapsto> f status)))"
    unfolding r w by (simp add: mutate_def readMap_def split: option.splits)
  from r rd frame h1 h2 s1 s2 h3 show ?thesis by simp
qed

theorem snapshot_copy_is_shallow_witness:
  "readServiceStatus stored_world ''A'' = Some example_status \<and>
   readServiceStatus (mutate (DeleteEntry ''A'') (fst (getStatusMap stored_world))
                        (snd (getStatusMap stored_world))) ''A''
     = Some example_status \<and>
   readServiceStatus (mutate (SetEntry ''A'' 99) (fst (getStatusMap stored_world))
                        (snd (getStatusMap stored_world))) ''A''
     = Some example_status"
proof -
  have a: "readServiceStatus stored_world ''A'' = Some example_status"
    by (simp add: readServiceStatus_def stored_world_def manager_eval)
  note t = snapshot_copy_is_shallow[where w = stored_world and serviceId = "''A''"
             and status = 99 and f = id]
  let ?r = "fst (getStatusMap stored_world)" and ?w = "snd (getStatusMap stored_world)"
  have d: "statusMap (mutate (DeleteEntry ''A'') ?r ?w) = statusMap stored_world"
    "heap (mutate (DeleteEntry ''A'') ?r ?w) = heap stored_world"
    using t[where m = "DeleteEntry ''A''"] by simp_all
  have e: "statusMap (mutate (SetEntry ''A'' 99) ?r ?w) = statusMap stored_world"
    "heap (mutate (SetEntry ''A'' 99) ?r ?w) = heap stored_world"
    using t[where m = "SetEntry ''A'' 99"] by simp_all
  show ?thesis
    unfolding readServiceStatus_def getServiceStatus_def d e
    using a by (simp add: readServiceStatus_def getServiceStatus_def)
qed

text \<open>
  Writing \<open>status_code\<close> of the record of \<open>A\<close> through a snapshot changes what a later
  lookup of \<open>A\<close> in the store reads.
\<close>

theorem snapshot_defensive_copy_counterexample:
  "map_option status_code (readServiceStatus stored_world ''A'') = Some 0 \<and>
   map_option status_code
     (readServiceStatus
        (mutate (SetField ''A'' (\<lambda>status. status\<lparr>status_code := 2\<rparr>))
           (fst (getStatusMap stored_world)) (snd (getStatusMap stored_world))) ''A'') = Some 2"
  by (simp add: readServiceStatus_def mutate_def stored_world_def example_status_def
        manager_eval)

section \<open>Cleanup\<close>


lemma cleanup_idempotent: "cleanup (cleanup w) = cleanup w"
  by (simp add: cleanup_def Let_def split: option.splits)

text \<open>
  Claim C4. \<open>cleanup\<close> should leave no pending reconnection attempt that later opens a new
  live channel. It does: when the socket has closed one second after the start and the
  manager is cleaned up before the reconnection timer fires, the timer is still pending
  after \<open>cleanup\<close>, and when it fires it finds no connection and opens socket 1. The same
  happens when \<open>cleanup\<close> itself closes the open socket: the close event that follows sets
  the reconnection timer, which opens socket 1.
\<close>

theorem cleanup_keeps_reconnect:
  "wsConnection ws_world = Some 0 \<and> sockets ws_world = [OPEN] \<and>
   timeouts (socketClosed 0 1000 ws_world) = [6000] \<and>
   timeouts (cleanup (socketClosed 0 1000 ws_world)) = [6000] \<and>
   wsConnection (cleanup (socketClosed 0 1000 ws_world)) = None \<and>
   wsConnection (timeoutFired None (cleanup (socketClosed 0 1000 ws_world))) = Some 1 \<and>
   sockets (timeoutFired None (cleanup (socketClosed 0 1000 ws_world))) = [CLOSED, CONNECTING] \<and>
   sockets (cleanup ws_world) = [CLOSING] \<and>
   timeouts (socketClosed 0 2000 (cleanup ws_world)) = [7000] \<and>
   wsConnection (timeoutFired None (socketClosed 0 2000 (cleanup ws_world))) = Some 1 \<and>
   sockets (timeoutFired None (socketClosed 0 2000 (cleanup ws_world))) = [CLOSED, CONNECTING]"
  by (simp add: manager_eval)

section \<open>Fetches that settle after cleanup\<close>








section \<open>Fallback polling\<close>

text \<open>
  An error event of the event stream, a close event of the socket and a failure of the
  socket each replace a running poll timer by one that is due 5 seconds after the event;
  the error handler of the socket on its own only reports the error. A live update for
  a tracked service, on either channel, replaces a running poll timer by one that is due
  the base interval after the update.
\<close>

lemma poll_rescheduling:
  assumes "pollInterval w \<noteq> None"
  shows "pollInterval (sse_onerror now w) = Some \<lparr>due = now + 5000, period = 5000\<rparr>"
    and "pollInterval (ws_onclose now w) = Some \<lparr>due = now + 5000, period = 5000\<rparr>"
    and "pollInterval (socketFailed h now w) = Some \<lparr>due = now + 5000, period = 5000\<rparr>"
    and "pollInterval (ws_onerror w) = pollInterval w"
    and "serviceId \<in> set (serviceIds w) \<Longrightarrow>
           pollInterval (sse_onmessage now (SseStatusUpdate serviceId status) w)
             = Some \<lparr>due = now + FALLBACK_POLL_INTERVAL w, period = FALLBACK_POLL_INTERVAL w\<rparr>"
    and "serviceId \<in> set (serviceIds w) \<Longrightarrow>
           pollInterval (ws_onmessage now (WsStatusUpdate serviceId status) w)
             = Some \<lparr>due = now + FALLBACK_POLL_INTERVAL w, period = FALLBACK_POLL_INTERVAL w\<rparr>"
  using assms
  by (auto simp: sse_onerror_def ws_onclose_def ws_onerror_def socketFailed_def socketClosed_def
        sse_onmessage_def ws_onmessage_def accelerateFallbackPolling_def
        resetFallbackPolling_def startFallbackPolling_def
        notifyError_eq updateServiceStatus_eq Let_def)

text \<open>
  When nothing else happens in between, a timer set at \<open>now\<close> with delay \<open>d\<close> fires at
  \<open>now + d\<close>, and not before.
\<close>

lemma runPollTimer_fresh:
  assumes "pollInterval w = Some \<lparr>due = now + d, period = d\<rparr>"
  shows "polls (runPollTimer (now + d) w) = polls w @ [now + d]"
    and "t < now + d \<Longrightarrow> polls (runPollTimer t w) = polls w"
proof -
  let ?w = "pollTimerFired \<lparr>due = now + d, period = d\<rparr> w"
  have "pollInterval ?w = Some \<lparr>due = now + d + max 1 d, period = d\<rparr>"
    by (simp add: pollTimerFired_def)
  then have stop: "runPollTimer (now + d) ?w = ?w"
    by (subst runPollTimer.simps) simp
  have "runPollTimer (now + d) w = runPollTimer (now + d) ?w"
    using assms by (subst runPollTimer.simps) simp
  with stop show "polls (runPollTimer (now + d) w) = polls w @ [now + d]"
    by (simp add: pollTimerFired_def)
  show "polls (runPollTimer t w) = polls w" if "t < now + d"
    using assms that by (subst runPollTimer.simps) simp
qed

lemma accelerated_poll_fires:
  assumes "pollInterval w \<noteq> None"
  shows "polls (runPollTimer (now + 5000) (sse_onerror now w)) = polls w @ [now + 5000]"
    and "polls (runPollTimer (now + 5000) (socketFailed h now w)) = polls w @ [now + 5000]"
proof -
  have p: "polls (sse_onerror now w) = polls w" "polls (socketFailed h now w) = polls w"
    by (simp_all add: sse_onerror_def socketFailed_def socketClosed_def ws_onclose_def
          ws_onerror_def accelerateFallbackPolling_def notifyError_eq Let_def
          split: option.splits)
  from runPollTimer_fresh(1)[OF poll_rescheduling(1)[OF assms]] p(1)
  show "polls (runPollTimer (now + 5000) (sse_onerror now w)) = polls w @ [now + 5000]"
    by simp
  from runPollTimer_fresh(1)[OF poll_rescheduling(3)[OF assms]] p(2)
  show "polls (runPollTimer (now + 5000) (socketFailed h now w)) = polls w @ [now + 5000]"
    by simp
qed

definition sse_options :: StatusManagerOptions where
  "sse_options = \<lparr>opt_serviceIds = [''A'', ''B''], enableSSE = None,
                   enableWebSocket = None, fallbackPollInterval = None\<rparr>"

definition sse_world :: World where
  "sse_world = initialize (Inr Map.empty) None 0 (newStatusManager sse_options)"

lemmas polling_eval = sse_options_def sse_world_def sse_onerror_def pollTimerFired_def
  runPollTimer.simps manager_eval

text \<open>
  Claim C6. After an error event of the live channel the next poll should fire no later
  than 5 seconds after that event. It does when no further event follows: after the one
  error at second 1 the poll fires at second 6. But every error event clears the timer
  and sets it anew, so a second error event within the 5 seconds postpones the poll:
  with errors at seconds 1 and 4 no poll has fired by second 6, and with an error every 3
  seconds, as when the stream retries against a server that is down, no poll has fired
  by second 12.
\<close>

theorem repeated_errors_postpone_poll:
  "sseConnection sse_world = Some 0 \<and>
   pollInterval sse_world = Some \<lparr>due = 30000, period = 30000\<rparr> \<and>
   polls (runPollTimer 6000 (sse_onerror 1000 sse_world)) = [6000] \<and>
   pollInterval (sse_onerror 4000 (runPollTimer 4000 (sse_onerror 1000 sse_world)))
     = Some \<lparr>due = 9000, period = 5000\<rparr> \<and>
   polls (runPollTimer 6000 (sse_onerror 4000 (runPollTimer 4000 (sse_onerror 1000 sse_world))))
     = [] \<and>
   polls (runPollTimer 12000 (sse_onerror 10000 (runPollTimer 10000 (sse_onerror 7000
            (runPollTimer 7000 (sse_onerror 4000 (runPollTimer 4000
               (sse_onerror 1000 sse_world))))))))
     = []"
  by (simp add: polling_eval)

end
